theory Spec2Isabelle
  imports Complex_Main "HOL-Library.Multiset"
begin

section \<open>The grammar test harness (evaluator.py)\<close>

text \<open>
  The harness walks two labelled directories, runs the external parser on every file
  found, tallies the verdicts per directory, prints the statistics and writes a report
  of the mismatches. Everything the script prints or writes is returned by the model
  next to the value: the printed lines in order, and the files written.
\<close>

subsection \<open>Exceptions and console lines\<close>

text \<open>
  The two exceptions the script can raise on its own paths: a key missing from a dict,
  and \<open>subprocess.run\<close> failing to start the child (FileNotFoundError and
  PermissionError are both OSError).
\<close>

datatype error = KeyError string | OSError

text \<open>
  One constructor per \<open>print\<close> statement of the script, carrying the values its
  f-string interpolates. The two sample loops print their entries with the same format
  but are different statements, so they are different constructors.
\<close>

datatype line =
    P_dir_not_found string            \<comment> \<open>line 25: Error: Directory not found: d\<close>
  | P_no_files string                 \<comment> \<open>line 64: No files found in d\<close>
  | P_testing nat string              \<comment> \<open>line 82: Testing n files in d\<close>
  | P_results_header                  \<comment> \<open>line 97\<close>
  | P_should_parse int int real       \<comment> \<open>lines 101-102: passed, total, rate\<close>
  | P_should_fail int int real        \<comment> \<open>lines 106-107: passed, total, rate\<close>
  | P_overall int int real            \<comment> \<open>lines 114-115: passed, total, rate\<close>
  | P_failed_count nat                \<comment> \<open>line 162: Failed tests: n\<close>
  | P_report_saved string             \<comment> \<open>line 163: Detailed report saved to: f\<close>
  | P_pass_sample_header nat          \<comment> \<open>line 170\<close>
  | P_pass_entry nat string           \<comment> \<open>line 172: i+1 and the file\<close>
  | P_pass_more nat                   \<comment> \<open>line 174: ... and n more\<close>
  | P_fail_sample_header nat          \<comment> \<open>line 177\<close>
  | P_fail_entry nat string           \<comment> \<open>line 179: i+1 and the file\<close>
  | P_fail_more nat                   \<comment> \<open>line 181: ... and n more\<close>
  | P_banner string                   \<comment> \<open>lines 196, 202, 208: fixed texts\<close>
  | P_extensions "string list"        \<comment> \<open>line 197: Testing file extensions: e1, e2, ...\<close>
  | P_runtime                         \<comment> \<open>line 224: the elapsed time\<close>

subsection \<open>The directory tree and \<open>find_files\<close>\<close>

text \<open>
  A directory is the list of its entries in the order \<open>scandir\<close> lists them. An entry
  is a name and what the name stands for:
  \<^item> \<open>File\<close>: anything \<open>os.walk\<close> does not count as a directory (a plain file, a
    link to a file);
  \<^item> \<open>Dir\<close>: a directory that can be listed, with its entries;
  \<^item> \<open>Link\<close>: a symbolic link to a directory, with the entries of the directory it
    points to;
  \<^item> \<open>Locked\<close>: a directory whose listing fails (no permission to read it), with
    the entries it holds.
\<close>

datatype node =
    File
  | Dir "(string \<times> node) list"
  | Link "(string \<times> node) list"
  | Locked "(string \<times> node) list"

text \<open>\<open>os.path.join\<close> of two components (POSIX).\<close>

definition path_join :: "string \<Rightarrow> string \<Rightarrow> string" where
  "path_join a b =
     (if b \<noteq> [] \<and> hd b = CHR ''/'' then b
      else if a = [] \<or> last a = CHR ''/'' then a @ b
      else a @ CHR ''/'' # b)"

text \<open>\<open>str.endswith\<close>.\<close>

definition endswith :: "string \<Rightarrow> string \<Rightarrow> bool" where
  "endswith s suf = (length suf \<le> length s \<and> drop (length s - length suf) s = suf)"

definition dirnames :: "(string \<times> node) list \<Rightarrow> string list" where
  "dirnames es = [n. (n, nd) \<leftarrow> es, nd \<noteq> File]"

definition filenames_of :: "(string \<times> node) list \<Rightarrow> string list" where
  "filenames_of es = [n. (n, nd) \<leftarrow> es, nd = File]"

text \<open>
  \<open>os.walk(d)\<close> as line 32 calls it (top-down, \<open>followlinks=False\<close>,
  \<open>onerror=None\<close>): the triple of the directory itself, then the walk of each
  subdirectory in turn. \<open>walk\<close> is given the entries of \<open>d\<close>; \<open>walk_dirs\<close> is the
  loop over the names in \<open>dirs\<close>. All three kinds of directory are listed in
  \<open>dirs\<close>, but a symbolic link is not descended into, and the walk of a directory
  that cannot be listed yields nothing and raises nothing.
\<close>

fun walk :: "string \<Rightarrow> (string \<times> node) list \<Rightarrow> (string \<times> string list \<times> string list) list"
  and walk_dirs :: "string \<Rightarrow> (string \<times> node) list \<Rightarrow> (string \<times> string list \<times> string list) list"
where
  "walk d es = (d, dirnames es, filenames_of es) # walk_dirs d es"
| "walk_dirs d [] = []"
| "walk_dirs d ((n, File) # rest) = walk_dirs d rest"
| "walk_dirs d ((n, Dir sub) # rest) = walk (path_join d n) sub @ walk_dirs d rest"
| "walk_dirs d ((n, Link sub) # rest) = walk_dirs d rest"
| "walk_dirs d ((n, Locked sub) # rest) = walk_dirs d rest"

definition default_extensions :: "string list" where
  "default_extensions = [''.js'', ''.ts'', ''.tsx'', ''.jsx'']"

text \<open>
  \<open>find_files\<close>. The file system is a function from a path to what is there, if
  anything. \<open>os.walk\<close> lists its own argument through a symbolic link; a path that
  exists but is a plain file, or a directory that cannot be listed, makes it yield
  nothing.
\<close>

definition find_files ::
  "(string \<Rightarrow> node option) \<Rightarrow> string \<Rightarrow> string list option \<Rightarrow> string list \<times> line list" where
  "find_files fsys directory extensions =
     (case fsys directory of
        None \<Rightarrow> ([], [P_dir_not_found directory])
      | Some nd \<Rightarrow>
          (let exts = (case extensions of None \<Rightarrow> default_extensions | Some e \<Rightarrow> e);
               triples = (case nd of File \<Rightarrow> [] | Dir es \<Rightarrow> walk directory es
                          | Link es \<Rightarrow> walk directory es | Locked es \<Rightarrow> [])
           in ([path_join rt filename.
                  (rt, dirs, filenames) \<leftarrow> triples,
                  filename \<leftarrow> filenames,
                  list_ex (\<lambda>ext. endswith filename ext) exts], [])))"

subsection \<open>Files of a tree\<close>

text \<open>
  What the claims about \<open>find_files\<close> speak of. \<open>file_at es ns\<close>: following the
  names \<open>ns\<close> down from a directory with entries \<open>es\<close>, through directories of any
  kind, ends at a file. The path of that file is \<open>foldl path_join directory ns\<close>.
\<close>

fun file_at :: "(string \<times> node) list \<Rightarrow> string list \<Rightarrow> bool" where
  "file_at [] ns = False"
| "file_at ((n, File) # rest) ns = (ns = [n] \<or> file_at rest ns)"
| "file_at ((n, Dir sub) # rest) ns =
     ((case ns of [] \<Rightarrow> False | m # ms \<Rightarrow> m = n \<and> file_at sub ms) \<or> file_at rest ns)"
| "file_at ((n, Link sub) # rest) ns =
     ((case ns of [] \<Rightarrow> False | m # ms \<Rightarrow> m = n \<and> file_at sub ms) \<or> file_at rest ns)"
| "file_at ((n, Locked sub) # rest) ns =
     ((case ns of [] \<Rightarrow> False | m # ms \<Rightarrow> m = n \<and> file_at sub ms) \<or> file_at rest ns)"

text \<open>
  \<open>reached_at es ns\<close>: the same, with every directory on the way one that can be
  listed and is not a symbolic link.
\<close>

fun reached_at :: "(string \<times> node) list \<Rightarrow> string list \<Rightarrow> bool" where
  "reached_at [] ns = False"
| "reached_at ((n, File) # rest) ns = (ns = [n] \<or> reached_at rest ns)"
| "reached_at ((n, Dir sub) # rest) ns =
     ((case ns of [] \<Rightarrow> False | m # ms \<Rightarrow> m = n \<and> reached_at sub ms) \<or> reached_at rest ns)"
| "reached_at ((n, Link sub) # rest) ns = reached_at rest ns"
| "reached_at ((n, Locked sub) # rest) ns = reached_at rest ns"

text \<open>
  A tree as a file system holds it: no name is empty or contains the separator, and
  no directory lists a name twice.
\<close>

definition valid_name :: "string \<Rightarrow> bool" where
  "valid_name n = (n \<noteq> [] \<and> CHR ''/'' \<notin> set n)"

fun wf_entries :: "(string \<times> node) list \<Rightarrow> bool" where
  "wf_entries [] = True"
| "wf_entries ((n, File) # rest) = (valid_name n \<and> n \<notin> fst ` set rest \<and> wf_entries rest)"
| "wf_entries ((n, Dir sub) # rest) =
     (valid_name n \<and> n \<notin> fst ` set rest \<and> wf_entries sub \<and> wf_entries rest)"
| "wf_entries ((n, Link sub) # rest) =
     (valid_name n \<and> n \<notin> fst ` set rest \<and> wf_entries sub \<and> wf_entries rest)"
| "wf_entries ((n, Locked sub) # rest) =
     (valid_name n \<and> n \<notin> fst ` set rest \<and> wf_entries sub \<and> wf_entries rest)"

text \<open>
  The name paths of the files whose names match, in the order of the walk; the proofs
  relate the list \<open>find_files\<close> returns to it.
\<close>

fun hits :: "string list \<Rightarrow> (string \<times> node) list \<Rightarrow> string list list"
  and hits_dirs :: "string list \<Rightarrow> (string \<times> node) list \<Rightarrow> string list list"
where
  "hits exts es = [[n]. n \<leftarrow> filenames_of es, list_ex (\<lambda>ext. endswith n ext) exts] @ hits_dirs exts es"
| "hits_dirs exts [] = []"
| "hits_dirs exts ((n, File) # rest) = hits_dirs exts rest"
| "hits_dirs exts ((n, Dir sub) # rest) = map ((#) n) (hits exts sub) @ hits_dirs exts rest"
| "hits_dirs exts ((n, Link sub) # rest) = hits_dirs exts rest"
| "hits_dirs exts ((n, Locked sub) # rest) = hits_dirs exts rest"

declare hits.simps [simp del]

subsection \<open>One task: \<open>test_file\<close>\<close>

text \<open>
  What \<open>subprocess.run\<close> does with the parser: it raises when the child cannot be
  started, and otherwise gives the child's return code (negative when a signal killed
  it). The script sets no timeout; a child that never exits is outside this model.
\<close>

datatype proc_outcome = SpawnError | Exited int

record task_result =
  file_path :: string
  expected_success :: bool
  actual_success :: bool
  success :: bool

definition test_file :: "(string \<Rightarrow> proc_outcome) \<Rightarrow> string \<times> bool \<Rightarrow> error + task_result" where
  "test_file run args =
     (case args of (fp, expected) \<Rightarrow>
        (case run fp of
           SpawnError \<Rightarrow> Inl OSError
         | Exited returncode \<Rightarrow>
             (let actual = (returncode = 0)
              in Inr \<lparr>file_path = fp, expected_success = expected,
                      actual_success = actual, success = (expected = actual)\<rparr>)))"

subsection \<open>One directory: \<open>process_directory\<close>\<close>

text \<open>
  The counters of a directory. \<open>set_stats\<close> is the dict built at lines 71-76; the
  report keeps its first three keys only (lines 145-154).
\<close>

record counts =
  total :: int
  passed :: int
  failed :: int

record set_stats = counts +
  failed_files :: "string list"

text \<open>
  The second value \<open>process_directory\<close> returns is a dict of one of two shapes: the
  empty dict of line 65, or the four keys of lines 71-76. Subscripting the empty dict
  raises KeyError.
\<close>

datatype stats_dict = EmptyDict | StatsDict set_stats

text \<open>The body of the loop at lines 86-91, on the counters.\<close>

definition tally :: "set_stats \<Rightarrow> task_result \<Rightarrow> set_stats" where
  "tally stats r =
     (if success r then stats\<lparr>passed := passed stats + 1\<rparr>
      else stats\<lparr>failed := failed stats + 1,
                 failed_files := failed_files stats @ [file_path r]\<rparr>)"

text \<open>
  The loop of lines 85-91 over what the pool hands back, in the order it hands it back.
  A task whose worker raised re-raises here, when its turn comes, and ends the loop.
\<close>

fun collect ::
  "(error + task_result) list \<Rightarrow> task_result list \<times> set_stats \<Rightarrow> error + task_result list \<times> set_stats" where
  "collect [] acc = Inr acc"
| "collect (Inl e # rest) acc = Inl e"
| "collect (Inr r # rest) (results, stats) = collect rest (results @ [r], tally stats r)"

text \<open>
  \<open>sched\<close> is the order in which \<open>imap_unordered\<close> completes the tasks it is given.
  The progress bar is not modelled.
\<close>

definition process_directory ::
  "(string \<Rightarrow> node option) \<Rightarrow> (string \<Rightarrow> proc_outcome) \<Rightarrow> ((string \<times> bool) list \<Rightarrow> (string \<times> bool) list)
     \<Rightarrow> string \<Rightarrow> bool \<Rightarrow> string list option
     \<Rightarrow> (error + task_result list \<times> stats_dict) \<times> line list" where
  "process_directory fsys run sched directory expected extensions =
     (case find_files fsys directory extensions of (files, out) \<Rightarrow>
        if files = [] then (Inr ([], EmptyDict), out @ [P_no_files directory])
        else
          (let tasks = map (\<lambda>fp. (fp, expected)) files;
               stats = \<lparr>total = int (length files), passed = 0, failed = 0, failed_files = []\<rparr>;
               out' = out @ [P_testing (length files) directory]
           in case collect (map (test_file run) (sched tasks)) ([], stats) of
                Inl e \<Rightarrow> (Inl e, out')
              | Inr (results, stats') \<Rightarrow> (Inr (results, StatsDict stats'), out')))"

subsection \<open>The statistics: \<open>print_stats\<close>\<close>

text \<open>
  A rate is \<open>passed / total * 100\<close> when \<open>total > 0\<close> and 0 otherwise; the
  condition is evaluated first. The float is modelled by the exact quotient.
\<close>

definition rate :: "int \<Rightarrow> int \<Rightarrow> real" where
  "rate p t = (if t > 0 then (real_of_int p / real_of_int t) * 100 else 0)"

definition print_stats :: "stats_dict \<Rightarrow> stats_dict \<Rightarrow> (error + unit) \<times> line list" where
  "print_stats stats_should_pass stats_should_fail =
     (case stats_should_pass of
        EmptyDict \<Rightarrow> (Inl (KeyError ''total''), [P_results_header])
      | StatsDict sp \<Rightarrow>
          (let out = [P_results_header, P_should_parse (passed sp) (total sp) (rate (passed sp) (total sp))]
           in case stats_should_fail of
                EmptyDict \<Rightarrow> (Inl (KeyError ''total''), out)
              | StatsDict sf \<Rightarrow>
                  (let total_tests = total sp + total sf;
                       total_passed = passed sp + passed sf
                   in (Inr (),
                       out @ [P_should_fail (passed sf) (total sf) (rate (passed sf) (total sf)),
                              P_overall total_passed total_tests (rate total_passed total_tests)]))))"

subsection \<open>The report: \<open>save_results\<close>\<close>

text \<open>
  A record of the report; \<open>file_f\<close> is its key \<open>file\<close>. In the report,
  \<open>should_pass\<close> and \<open>should_fail\<close> are the two entries of its key \<open>stats\<close>.
\<close>

record failed_test =
  file_f :: string
  expected :: string
  actual :: string

record report =
  timestamp :: string
  should_pass :: counts
  should_fail :: counts
  failed_tests :: "failed_test list"

text \<open>
  \<open>save_results\<close>, given the result of \<open>time.strftime\<close>. It returns the report's
  file name or None, what it printed, and the files it wrote (name and content; the JSON
  encoding is not modelled, and the write is taken to succeed). The two dicts are read
  only once there is a failed test, at lines 146-153.
\<close>

definition save_results ::
  "string \<Rightarrow> task_result list \<Rightarrow> task_result list \<Rightarrow> stats_dict \<Rightarrow> stats_dict
     \<Rightarrow> (error + string option) \<times> line list \<times> (string \<times> report) list" where
  "save_results now results_should_pass results_should_fail stats_should_pass stats_should_fail =
     (let ftests =
            [\<lparr>file_f = file_path r, expected = ''pass'', actual = ''fail''\<rparr>.
               r \<leftarrow> results_should_pass, \<not> success r]
            @ [\<lparr>file_f = file_path r, expected = ''fail'', actual = ''pass''\<rparr>.
               r \<leftarrow> results_should_fail, \<not> success r]
      in if ftests \<noteq> [] then
           (let report_file = ''tree-sitter-test-report-'' @ now @ ''.json''
            in case stats_should_pass of
                 EmptyDict \<Rightarrow> (Inl (KeyError ''total''), [], [])
               | StatsDict sp \<Rightarrow>
                  (case stats_should_fail of
                     EmptyDict \<Rightarrow> (Inl (KeyError ''total''), [], [])
                   | StatsDict sf \<Rightarrow>
                      (let rep = \<lparr>timestamp = now,
                                  should_pass = \<lparr>total = total sp, passed = passed sp, failed = failed sp\<rparr>,
                                  should_fail = \<lparr>total = total sf, passed = passed sf, failed = failed sf\<rparr>,
                                  failed_tests = ftests\<rparr>;
                           should_pass_fails = filter (\<lambda>t. expected t = ''pass'') ftests;
                           should_fail_fails = filter (\<lambda>t. expected t = ''fail'') ftests
                       in (Inr (Some report_file),
                           [P_failed_count (length ftests), P_report_saved report_file]
                           @ (if should_pass_fails \<noteq> [] then
                                [P_pass_sample_header (length should_pass_fails)]
                                @ map (\<lambda>(i, t). P_pass_entry (i + 1) (file_f t))
                                      (enumerate 0 (take 5 should_pass_fails))
                                @ (if length should_pass_fails > 5
                                   then [P_pass_more (length should_pass_fails - 5)] else [])
                              else [])
                           @ (if should_fail_fails \<noteq> [] then
                                [P_fail_sample_header (length should_fail_fails)]
                                @ map (\<lambda>(i, t). P_fail_entry (i + 1) (file_f t))
                                      (enumerate 0 (take 5 should_fail_fails))
                                @ (if length should_fail_fails > 5
                                   then [P_fail_more (length should_fail_fails - 5)] else [])
                              else []),
                           [(report_file, rep)]))))
         else (Inr None, [], []))"

subsection \<open>The run: \<open>main\<close>\<close>

text \<open>The world a run sees: the file system, the parser, the pool's order, the clock.\<close>

record env =
  the_fsys :: "string \<Rightarrow> node option"
  the_run :: "string \<Rightarrow> proc_outcome"
  the_sched :: "(string \<times> bool) list \<Rightarrow> (string \<times> bool) list"
  the_time :: string

text \<open>
  \<open>main\<close> after the arguments are parsed. An exception leaves through \<open>main\<close> with
  what was printed before it.
\<close>

definition main ::
  "env \<Rightarrow> string \<Rightarrow> string \<Rightarrow> string list \<Rightarrow> (error + unit) \<times> line list \<times> (string \<times> report) list" where
  "main e should_parse_dir should_not_parse_dir extensions =
     (let out0 = [P_banner ''Tree-sitter Grammar Tester'', P_extensions extensions,
                  P_banner ''Processing files that should parse successfully...'']
      in case process_directory (the_fsys e) (the_run e) (the_sched e) should_parse_dir True (Some extensions) of
           (Inl err, o1) \<Rightarrow> (Inl err, out0 @ o1, [])
         | (Inr (results_should_pass, stats_should_pass), o1) \<Rightarrow>
            (let out1 = out0 @ o1 @ [P_banner ''Processing files that should fail to parse...'']
             in case process_directory (the_fsys e) (the_run e) (the_sched e) should_not_parse_dir False (Some extensions) of
                  (Inl err, o2) \<Rightarrow> (Inl err, out1 @ o2, [])
                | (Inr (results_should_fail, stats_should_fail), o2) \<Rightarrow>
                   (case print_stats stats_should_pass stats_should_fail of
                      (Inl err, o3) \<Rightarrow> (Inl err, out1 @ o2 @ o3, [])
                    | (Inr u, o3) \<Rightarrow>
                       (case save_results (the_time e) results_should_pass results_should_fail
                               stats_should_pass stats_should_fail of
                          (Inl err, o4, written) \<Rightarrow> (Inl err, out1 @ o2 @ o3 @ o4, written)
                        | (Inr report_file, o4, written) \<Rightarrow>
                            (Inr (), out1 @ o2 @ o3 @ o4 @ [P_runtime], written)))))"

subsection \<open>A sample corpus\<close>

text \<open>
  A directory \<open>a\<close> with two matching files, a subdirectory holding one more and a text
  file; a parser that accepts \<open>a/x.ts\<close>, is killed by a signal on \<open>a/y.js\<close> and
  rejects the rest; and a parser that cannot be started for \<open>a/x.ts\<close>.
\<close>

definition demo_fsys :: "string \<Rightarrow> node option" where
  "demo_fsys d =
     (if d = ''a''
      then Some (Dir [(''x.ts'', File),
                      (''sub'', Dir [(''z.tsx'', File), (''n.txt'', File)]),
                      (''y.js'', File)])
      else None)"

text \<open>
  A directory \<open>t\<close> that also holds a directory that cannot be listed and a symbolic
  link to a directory, each with a matching file behind it.
\<close>

definition demo_links :: "(string \<times> node) list" where
  "demo_links =
     [(''a.ts'', File),
      (''locked'', Locked [(''hidden.ts'', File)]),
      (''lnk'', Link [(''r.ts'', File)]),
      (''sub'', Dir [(''b.js'', File)])]"

definition demo_links_fsys :: "string \<Rightarrow> node option" where
  "demo_links_fsys d = (if d = ''t'' then Some (Dir demo_links) else None)"

definition demo_run :: "string \<Rightarrow> proc_outcome" where
  "demo_run f = (if f = ''a/x.ts'' then Exited 0 else if f = ''a/y.js'' then Exited (- 11) else Exited 1)"

definition demo_bad_run :: "string \<Rightarrow> proc_outcome" where
  "demo_bad_run f = (if f = ''a/x.ts'' then SpawnError else Exited 0)"

text \<open>
  What the sample corpus gives when it is the should-parse directory and when it is the
  should-not-parse directory (the pool handing results back in reverse), and a batch
  of seven failures.
\<close>

definition demo_rp :: "task_result list" where
  "demo_rp =
     [\<lparr>file_path = ''a/sub/z.tsx'', expected_success = True, actual_success = False, success = False\<rparr>,
      \<lparr>file_path = ''a/y.js'', expected_success = True, actual_success = False, success = False\<rparr>,
      \<lparr>file_path = ''a/x.ts'', expected_success = True, actual_success = True, success = True\<rparr>]"

definition demo_sp :: set_stats where
  "demo_sp = \<lparr>total = 3, passed = 1, failed = 2, failed_files = [''a/sub/z.tsx'', ''a/y.js'']\<rparr>"

definition demo_rf :: "task_result list" where
  "demo_rf =
     [\<lparr>file_path = ''a/sub/z.tsx'', expected_success = False, actual_success = False, success = True\<rparr>,
      \<lparr>file_path = ''a/y.js'', expected_success = False, actual_success = False, success = True\<rparr>,
      \<lparr>file_path = ''a/x.ts'', expected_success = False, actual_success = True, success = False\<rparr>]"

definition demo_sf :: set_stats where
  "demo_sf = \<lparr>total = 3, passed = 2, failed = 1, failed_files = [''a/x.ts'']\<rparr>"

definition demo_many :: "task_result list" where
  "demo_many =
     map (\<lambda>f. \<lparr>file_path = f, expected_success = True, actual_success = False, success = False\<rparr>)
       [''f1'', ''f2'', ''f3'', ''f4'', ''f5'', ''f6'', ''f7'']"

definition demo_now :: string where
  "demo_now = ''20260101-120000''"

section \<open>Properties\<close>

subsection \<open>The loop over the results\<close>

lemma foldl_tally_total: "total (foldl tally st rs) = total st"
  by (induction rs arbitrary: st) (simp_all add: tally_def)

lemma foldl_tally_passed:
  "passed (foldl tally st rs) = passed st + int (length (filter success rs))"
  by (induction rs arbitrary: st) (simp_all add: tally_def)

lemma foldl_tally_failed:
  "failed (foldl tally st rs) = failed st + int (length (filter (\<lambda>r. \<not> success r) rs))"
  by (induction rs arbitrary: st) (simp_all add: tally_def)

lemma foldl_tally_failed_files:
  "failed_files (foldl tally st rs) = failed_files st @ map file_path (filter (\<lambda>r. \<not> success r) rs)"
  by (induction rs arbitrary: st) (simp_all add: tally_def)

lemma collect_map_Inr: "collect (map Inr rs) (res, st) = Inr (res @ rs, foldl tally st rs)"
  by (induction rs arbitrary: res st) simp_all

lemma collect_Inr:
  "collect xs (res, st) = Inr (res', st') \<Longrightarrow>
     \<exists>rs. xs = map Inr rs \<and> res' = res @ rs \<and> st' = foldl tally st rs"
proof (induction xs arbitrary: res st)
  case Nil
  then show ?case by simp
next
  case (Cons x xs)
  show ?case
  proof (cases x)
    case (Inl e)
    with Cons.prems show ?thesis by simp
  next
    case (Inr r)
    with Cons.prems have "collect xs (res @ [r], tally st r) = Inr (res', st')" by simp
    from Cons.IH [OF this] obtain rs where
      "xs = map Inr rs" "res' = (res @ [r]) @ rs" "st' = foldl tally (tally st r) rs" by blast
    with Inr have "x # xs = map Inr (r # rs) \<and> res' = res @ (r # rs) \<and> st' = foldl tally st (r # rs)"
      by simp
    then show ?thesis by (rule exI [where x = "r # rs"])
  qed
qed

lemma collect_Inl: "Inl e \<in> set xs \<Longrightarrow> \<exists>e'. collect xs acc = Inl e'"
proof (induction xs arbitrary: acc)
  case Nil
  then show ?case by simp
next
  case (Cons x xs)
  show ?case
  proof (cases x)
    case (Inl e')
    then show ?thesis by simp
  next
    case (Inr r)
    with Cons.prems have "Inl e \<in> set xs" by auto
    from Cons.IH [OF this] Inr show ?thesis by (cases acc) simp
  qed
qed

lemma collect_Inl_mem: "collect xs acc = Inl e \<Longrightarrow> Inl e \<in> set xs"
proof (induction xs arbitrary: acc)
  case Nil
  then show ?case by simp
next
  case (Cons x xs)
  show ?case
  proof (cases x)
    case (Inl e')
    with Cons.prems show ?thesis by simp
  next
    case (Inr r)
    with Cons.prems have "collect xs (fst acc @ [r], tally (snd acc) r) = Inl e" by (cases acc) simp
    from Cons.IH [OF this] show ?thesis by simp
  qed
qed

lemma test_file_cases:
  "test_file run (fp, e) = Inl OSError \<and> run fp = SpawnError \<or>
   (\<exists>rc. run fp = Exited rc \<and>
      test_file run (fp, e) = Inr \<lparr>file_path = fp, expected_success = e,
                                   actual_success = (rc = 0), success = (e = (rc = 0))\<rparr>)"
  by (cases "run fp") (simp_all add: test_file_def Let_def)

lemma process_directory_Inr:
  assumes "process_directory fsys run sched d e exts = (Inr (results, StatsDict s), out)"
  shows "\<exists>files out0. find_files fsys d exts = (files, out0) \<and> files \<noteq> [] \<and>
           map (test_file run) (sched (map (\<lambda>fp. (fp, e)) files)) = map Inr results \<and>
           s = foldl tally \<lparr>total = int (length files), passed = 0, failed = 0, failed_files = []\<rparr> results"
proof -
  obtain files out0 where ff: "find_files fsys d exts = (files, out0)"
    by (cases "find_files fsys d exts")
  have ne: "files \<noteq> []"
    using assms ff by (auto simp: process_directory_def)
  let ?st = "\<lparr>total = int (length files), passed = 0, failed = 0, failed_files = []\<rparr>"
  have "collect (map (test_file run) (sched (map (\<lambda>fp. (fp, e)) files))) ([], ?st) = Inr (results, s)"
    using assms ff ne
    by (auto simp: process_directory_def Let_def split: sum.splits)
  from collect_Inr [OF this] have
    "map (test_file run) (sched (map (\<lambda>fp. (fp, e)) files)) = map Inr results \<and> s = foldl tally ?st results"
    by auto
  with ff ne show ?thesis by blast
qed

text \<open>The sample corpus, evaluated.\<close>

lemma find_files_demo:
  "find_files demo_fsys ''a'' None = ([''a/x.ts'', ''a/y.js'', ''a/sub/z.tsx''], [])"
  by (simp add: find_files_def demo_fsys_def dirnames_def filenames_of_def path_join_def
      endswith_def default_extensions_def)

lemma process_directory_demo:
  "process_directory demo_fsys demo_run rev ''a'' True None =
     (Inr (demo_rp, StatsDict demo_sp), [P_testing 3 ''a''])"
  by (simp add: process_directory_def find_files_demo demo_run_def test_file_def tally_def
      demo_rp_def demo_sp_def)

lemma process_directory_demo_fail:
  "process_directory demo_fsys demo_run rev ''a'' False None =
     (Inr (demo_rf, StatsDict demo_sf), [P_testing 3 ''a''])"
  by (simp add: process_directory_def find_files_demo demo_run_def test_file_def tally_def
      demo_rf_def demo_sf_def)

lemma process_directory_demo_bad:
  "process_directory demo_fsys demo_bad_run sched ''a'' True None =
     (case collect (map (test_file demo_bad_run)
                     (sched [(''a/x.ts'', True), (''a/y.js'', True), (''a/sub/z.tsx'', True)]))
             ([], \<lparr>total = 3, passed = 0, failed = 0, failed_files = []\<rparr>) of
        Inl e \<Rightarrow> (Inl e, [P_testing 3 ''a''])
      | Inr (results, st) \<Rightarrow> (Inr (results, StatsDict st), [P_testing 3 ''a'']))"
  by (simp add: process_directory_def find_files_demo split: sum.splits)

subsection \<open>The report and the preview\<close>

lemma concat_map_if: "concat (map (\<lambda>r. if P r then [f r] else []) xs) = map f (filter P xs)"
  by (induction xs) simp_all

lemma save_results_records:
  "save_results now rp rf dp df = (Inr (Some name), out, written) \<Longrightarrow>
     \<exists>sp sf. dp = StatsDict sp \<and> df = StatsDict sf \<and>
       name = ''tree-sitter-test-report-'' @ now @ ''.json'' \<and>
       written = [(name,
          \<lparr>timestamp = now,
           should_pass = \<lparr>total = total sp, passed = passed sp, failed = failed sp\<rparr>,
           should_fail = \<lparr>total = total sf, passed = passed sf, failed = failed sf\<rparr>,
           failed_tests =
             map (\<lambda>r. \<lparr>file_f = file_path r, expected = ''pass'', actual = ''fail''\<rparr>)
                 (filter (\<lambda>r. \<not> success r) rp)
             @ map (\<lambda>r. \<lparr>file_f = file_path r, expected = ''fail'', actual = ''pass''\<rparr>)
                 (filter (\<lambda>r. \<not> success r) rf)\<rparr>)]"
  by (cases dp; cases df) (auto simp: save_results_def Let_def concat_map_if split: if_splits)

lemma save_results_none:
  "\<forall>r\<in>set (rp @ rf). success r \<Longrightarrow> save_results now rp rf dp df = (Inr None, [], [])"
  by (simp add: save_results_def concat_map_if Let_def filter_empty_conv)

lemma save_results_some:
  "\<exists>r\<in>set (rp @ rf). \<not> success r \<Longrightarrow>
     \<exists>out rep. save_results now rp rf (StatsDict sp) (StatsDict sf) =
       (Inr (Some (''tree-sitter-test-report-'' @ now @ ''.json'')), out,
        [(''tree-sitter-test-report-'' @ now @ ''.json'', rep)])"
  by (auto simp add: save_results_def concat_map_if Let_def filter_empty_conv)

lemma pass_block_lines:
  "concat (map (\<lambda>x. case (case x of (i, t) \<Rightarrow> P_pass_entry (Suc i) (g t)) of
                       P_pass_entry i f \<Rightarrow> [(i, f)] | _ \<Rightarrow> []) ys)
     = map (\<lambda>(i, t). (Suc i, g t)) ys"
  "concat (map (\<lambda>x. case (case x of (i, t) \<Rightarrow> P_pass_entry (Suc i) (g t)) of
                       P_fail_entry i f \<Rightarrow> [(i, f)] | _ \<Rightarrow> []) ys) = []"
  "concat (map (\<lambda>x. case (case x of (i, t) \<Rightarrow> P_pass_entry (Suc i) (g t)) of
                       P_pass_more n \<Rightarrow> [n] | _ \<Rightarrow> []) ys) = []"
  "concat (map (\<lambda>x. case (case x of (i, t) \<Rightarrow> P_pass_entry (Suc i) (g t)) of
                       P_fail_more n \<Rightarrow> [n] | _ \<Rightarrow> []) ys) = []"
  by (induction ys) auto

lemma fail_block_lines:
  "concat (map (\<lambda>x. case (case x of (i, t) \<Rightarrow> P_fail_entry (Suc i) (g t)) of
                       P_fail_entry i f \<Rightarrow> [(i, f)] | _ \<Rightarrow> []) ys)
     = map (\<lambda>(i, t). (Suc i, g t)) ys"
  "concat (map (\<lambda>x. case (case x of (i, t) \<Rightarrow> P_fail_entry (Suc i) (g t)) of
                       P_pass_entry i f \<Rightarrow> [(i, f)] | _ \<Rightarrow> []) ys) = []"
  "concat (map (\<lambda>x. case (case x of (i, t) \<Rightarrow> P_fail_entry (Suc i) (g t)) of
                       P_pass_more n \<Rightarrow> [n] | _ \<Rightarrow> []) ys) = []"
  "concat (map (\<lambda>x. case (case x of (i, t) \<Rightarrow> P_fail_entry (Suc i) (g t)) of
                       P_fail_more n \<Rightarrow> [n] | _ \<Rightarrow> []) ys) = []"
  by (induction ys) auto

lemma enumerate_shift:
  "map (\<lambda>(i, t). (Suc i, g t)) (enumerate n xs) = enumerate (Suc n) (map g xs)"
  by (induction xs arbitrary: n) auto

lemma save_results_console:
  assumes "\<exists>r\<in>set (rp @ rf). \<not> success r"
  shows "fst (snd (save_results now rp rf (StatsDict sp) (StatsDict sf))) =
     (let xs = map (\<lambda>r. \<lparr>file_f = file_path r, expected = ''pass'', actual = ''fail''\<rparr>)
                 (filter (\<lambda>r. \<not> success r) rp);
          ys = map (\<lambda>r. \<lparr>file_f = file_path r, expected = ''fail'', actual = ''pass''\<rparr>)
                 (filter (\<lambda>r. \<not> success r) rf)
      in [P_failed_count (length xs + length ys),
          P_report_saved (''tree-sitter-test-report-'' @ now @ ''.json'')]
         @ (if xs \<noteq> [] then
              [P_pass_sample_header (length xs)]
              @ map (\<lambda>(i, t). P_pass_entry (i + 1) (file_f t)) (enumerate 0 (take 5 xs))
              @ (if length xs > 5 then [P_pass_more (length xs - 5)] else [])
            else [])
         @ (if ys \<noteq> [] then
              [P_fail_sample_header (length ys)]
              @ map (\<lambda>(i, t). P_fail_entry (i + 1) (file_f t)) (enumerate 0 (take 5 ys))
              @ (if length ys > 5 then [P_fail_more (length ys - 5)] else [])
            else []))"
proof -
  let ?xs = "map (\<lambda>r. \<lparr>file_f = file_path r, expected = ''pass'', actual = ''fail''\<rparr>)
                 (filter (\<lambda>r. \<not> success r) rp)"
  let ?ys = "map (\<lambda>r. \<lparr>file_f = file_path r, expected = ''fail'', actual = ''pass''\<rparr>)
                 (filter (\<lambda>r. \<not> success r) rf)"
  have ne: "?xs @ ?ys \<noteq> []" using assms by (auto simp: filter_empty_conv)
  have fp: "filter (\<lambda>t. expected t = ''pass'') (?xs @ ?ys) = ?xs"
    by (simp add: filter_map comp_def)
  have ff: "filter (\<lambda>t. expected t = ''fail'') (?xs @ ?ys) = ?ys"
    by (simp add: filter_map comp_def)
  show ?thesis
    using ne by (simp add: save_results_def concat_map_if Let_def filter_map comp_def)
qed

lemma save_results_demo_ret:
  "fst (save_results demo_now demo_rp demo_rf (StatsDict demo_sp) (StatsDict demo_sf))
     = Inr (Some ''tree-sitter-test-report-20260101-120000.json'')"
  by (simp add: save_results_def Let_def demo_rp_def demo_rf_def demo_now_def)

lemma save_results_demo_many_ret:
  "fst (save_results demo_now demo_many demo_rf (StatsDict demo_sp) (StatsDict demo_sf))
     = Inr (Some ''tree-sitter-test-report-20260101-120000.json'')"
  by (simp add: save_results_def Let_def demo_many_def demo_rf_def demo_now_def)

subsection \<open>The Oracle Invoker\<close>

text \<open>
  C5. Whenever the parser process runs and exits with a return code, \<open>test_file\<close>
  returns a result whose \<open>actual_success\<close> is (return code = 0), whose \<open>success\<close>
  is (expected = actual), and which carries the file path and the expected verdict
  unchanged.
\<close>

theorem test_file_result:
  assumes "run fp = Exited rc"
  shows "test_file run (fp, e) =
           Inr \<lparr>file_path = fp, expected_success = e,
                actual_success = (rc = 0), success = (e = (rc = 0))\<rparr>"
  using assms by (simp add: test_file_def Let_def)

theorem test_file_result_witness:
  "(\<lambda>f. Exited 1) ''a.ts'' = Exited 1 \<and>
   test_file (\<lambda>f. Exited 1) (''a.ts'', True) =
     Inr \<lparr>file_path = ''a.ts'', expected_success = True,
          actual_success = False, success = False\<rparr>"
  using test_file_result [of "\<lambda>f. Exited 1" "''a.ts''" 1 True] by simp

text \<open>
  C2 (as the code has it). A parser that starts and exits, on a signal or otherwise,
  gives \<open>actual_success = (return code = 0)\<close>, so a death by signal counts as a parse
  failure. A parser that cannot be started gives no result: \<open>test_file\<close> raises
  OSError, and the loop of \<open>process_directory\<close> re-raises it, so the whole batch ends
  with the exception. When every parser starts, the batch returns one result per task:
  the results are the tasks' own results, in the pool's order.
\<close>

theorem process_directory_spawn_policy:
  assumes perm: "\<forall>ts. mset (sched ts) = mset ts"
      and ff: "find_files fsys d exts = (files, out)"
      and ne: "files \<noteq> []"
  shows "((\<forall>fp\<in>set files. run fp \<noteq> SpawnError) \<longrightarrow>
            (\<exists>results st. fst (process_directory fsys run sched d e exts) = Inr (results, StatsDict st) \<and>
               mset (map Inr results) = mset (map (\<lambda>fp. test_file run (fp, e)) files) \<and>
               (\<forall>r\<in>set results. \<forall>rc. run (file_path r) = Exited rc \<longrightarrow> actual_success r = (rc = 0))))
       \<and> ((\<exists>fp\<in>set files. run fp = SpawnError) \<longrightarrow>
            fst (process_directory fsys run sched d e exts) = Inl OSError)"
proof (intro conjI impI)
  let ?tasks = "map (\<lambda>fp. (fp, e)) files"
  let ?st = "\<lparr>total = int (length files), passed = 0, failed = 0, failed_files = []\<rparr>"
  have pd: "fst (process_directory fsys run sched d e exts) =
              (case collect (map (test_file run) (sched ?tasks)) ([], ?st) of
                 Inl err \<Rightarrow> Inl err | Inr (results, st) \<Rightarrow> Inr (results, StatsDict st))"
    using ff ne by (simp add: process_directory_def Let_def split: sum.splits prod.splits)
  have set_sched: "set (sched ?tasks) = set ?tasks"
    using perm by (metis set_mset_mset)
  {
    assume ok: "\<forall>fp\<in>set files. run fp \<noteq> SpawnError"
    let ?rs = "map (\<lambda>t. projr (test_file run t)) (sched ?tasks)"
    have each: "\<And>t. t \<in> set (sched ?tasks) \<Longrightarrow> test_file run t = Inr (projr (test_file run t))"
    proof -
      fix t assume "t \<in> set (sched ?tasks)"
      then obtain fp where t: "t = (fp, e)" and fp: "fp \<in> set files"
        using set_sched by auto
      from ok fp have "run fp \<noteq> SpawnError" by blast
      with test_file_cases [of run fp e] t show "test_file run t = Inr (projr (test_file run t))"
        by auto
    qed
    then have m: "map (test_file run) (sched ?tasks) = map Inr ?rs"
      by simp
    have c: "collect (map (test_file run) (sched ?tasks)) ([], ?st) = Inr (?rs, foldl tally ?st ?rs)"
      using collect_map_Inr [of ?rs "[]" ?st] by (simp only: m append_Nil)
    have r1: "fst (process_directory fsys run sched d e exts) = Inr (?rs, StatsDict (foldl tally ?st ?rs))"
      by (simp only: pd c sum.case prod.case)
    have "mset (map Inr ?rs) = mset (map (test_file run) (sched ?tasks))"
      by (simp only: m)
    also have "\<dots> = image_mset (test_file run) (mset (sched ?tasks))" by simp
    also have "\<dots> = image_mset (test_file run) (mset ?tasks)" using perm by simp
    also have "\<dots> = mset (map (test_file run) ?tasks)" by (simp only: mset_map)
    also have "\<dots> = mset (map (\<lambda>fp. test_file run (fp, e)) files)" by (simp only: map_map comp_def)
    finally have r2: "mset (map Inr ?rs) = mset (map (\<lambda>fp. test_file run (fp, e)) files)" .
    have r3: "\<forall>r\<in>set ?rs. \<forall>rc. run (file_path r) = Exited rc \<longrightarrow> actual_success r = (rc = 0)"
    proof (intro ballI allI impI)
      fix r rc assume r: "r \<in> set ?rs" and rc: "run (file_path r) = Exited rc"
      from r obtain t where t: "t \<in> set (sched ?tasks)" and rt: "r = projr (test_file run t)" by auto
      from t obtain fp where tf: "t = (fp, e)" using set_sched by auto
      from each [OF t] rt have "test_file run (fp, e) = Inr r" using tf by simp
      with test_file_cases [of run fp e] rc show "actual_success r = (rc = 0)" by auto
    qed
    from r1 r2 r3
    show "\<exists>results st. fst (process_directory fsys run sched d e exts) = Inr (results, StatsDict st) \<and>
               mset (map Inr results) = mset (map (\<lambda>fp. test_file run (fp, e)) files) \<and>
               (\<forall>r\<in>set results. \<forall>rc. run (file_path r) = Exited rc \<longrightarrow> actual_success r = (rc = 0))"
      by blast
  }
  {
    assume "\<exists>fp\<in>set files. run fp = SpawnError"
    then obtain fp where fp: "fp \<in> set files" and sp: "run fp = SpawnError" by blast
    have "test_file run (fp, e) = Inl OSError" using sp by (simp add: test_file_def)
    moreover have "(fp, e) \<in> set (sched ?tasks)" using fp set_sched by auto
    ultimately have "Inl OSError \<in> set (map (test_file run) (sched ?tasks))"
      by (metis image_eqI set_map)
    from collect_Inl [OF this] obtain e' where
      c: "collect (map (test_file run) (sched ?tasks)) ([], ?st) = Inl e'" by blast
    from collect_Inl_mem [OF c] obtain t where "test_file run t = Inl e'" by auto
    then have "e' = OSError"
      using test_file_cases [of run "fst t" "snd t"] by auto
    with c show "fst (process_directory fsys run sched d e exts) = Inl OSError"
      by (simp only: pd sum.case)
  }
qed

theorem process_directory_spawn_policy_witness:
  "(\<forall>ts::(string \<times> bool) list. mset (rev ts) = mset ts) \<and>
   find_files demo_fsys ''a'' None = ([''a/x.ts'', ''a/y.js'', ''a/sub/z.tsx''], []) \<and>
   demo_run ''a/x.ts'' \<noteq> SpawnError \<and> demo_run ''a/y.js'' \<noteq> SpawnError \<and>
   demo_run ''a/sub/z.tsx'' \<noteq> SpawnError \<and>
   (\<exists>results st. fst (process_directory demo_fsys demo_run rev ''a'' True None) = Inr (results, StatsDict st) \<and>
      mset (map Inr results) =
        mset (map (\<lambda>fp. test_file demo_run (fp, True)) [''a/x.ts'', ''a/y.js'', ''a/sub/z.tsx'']) \<and>
      (\<forall>r\<in>set results. \<forall>rc. demo_run (file_path r) = Exited rc \<longrightarrow> actual_success r = (rc = 0))) \<and>
   (\<exists>fp\<in>set [''a/x.ts'', ''a/y.js'', ''a/sub/z.tsx'']. demo_bad_run fp = SpawnError) \<and>
   fst (process_directory demo_fsys demo_bad_run rev ''a'' True None) = Inl OSError"
proof -
  have perm: "\<forall>ts::(string \<times> bool) list. mset (rev ts) = mset ts" by simp
  have ne: "[''a/x.ts'', ''a/y.js'', ''a/sub/z.tsx''] \<noteq> []" by simp
  have ok: "\<forall>fp\<in>set [''a/x.ts'', ''a/y.js'', ''a/sub/z.tsx'']. demo_run fp \<noteq> SpawnError"
    by (simp add: demo_run_def)
  have bad: "\<exists>fp\<in>set [''a/x.ts'', ''a/y.js'', ''a/sub/z.tsx'']. demo_bad_run fp = SpawnError"
    by (simp add: demo_bad_run_def)
  note good_case = process_directory_spawn_policy [OF perm find_files_demo ne, of demo_run True]
  note bad_case = process_directory_spawn_policy [OF perm find_files_demo ne, of demo_bad_run True]
  from good_case ok have A:
    "\<exists>results st. fst (process_directory demo_fsys demo_run rev ''a'' True None) = Inr (results, StatsDict st) \<and>
      mset (map Inr results) =
        mset (map (\<lambda>fp. test_file demo_run (fp, True)) [''a/x.ts'', ''a/y.js'', ''a/sub/z.tsx'']) \<and>
      (\<forall>r\<in>set results. \<forall>rc. demo_run (file_path r) = Exited rc \<longrightarrow> actual_success r = (rc = 0))"
    by blast
  from bad_case bad have B: "fst (process_directory demo_fsys demo_bad_run rev ''a'' True None) = Inl OSError"
    by blast
  have ok': "demo_run ''a/x.ts'' \<noteq> SpawnError \<and> demo_run ''a/y.js'' \<noteq> SpawnError \<and>
             demo_run ''a/sub/z.tsx'' \<noteq> SpawnError"
    by (simp add: demo_run_def)
  from perm find_files_demo ok' A bad B show ?thesis by blast
qed

text \<open>
  The claim as written fails where a parser cannot be started: that task has no
  result at all, and the batch returns none of the other tasks' results either.
\<close>

theorem process_directory_spawn_counterexample:
  "demo_bad_run ''a/x.ts'' = SpawnError \<and>
   test_file demo_bad_run (''a/x.ts'', True) = Inl OSError \<and>
   demo_bad_run ''a/y.js'' = Exited 0 \<and>
   fst (process_directory demo_fsys demo_bad_run id ''a'' True None) = Inl OSError"
  by (simp add: process_directory_demo_bad demo_bad_run_def test_file_def)

subsection \<open>The Aggregator\<close>

text \<open>
  C3 (as the code has it). Folding a permutation of a result collection gives the
  same \<open>total\<close>, \<open>passed\<close> and \<open>failed\<close>, and the same \<open>failed_files\<close> up to
  order: the list holds the failed paths in the order the results arrived.
\<close>

theorem tally_order_independent:
  assumes "mset rs' = mset rs"
  shows "total (foldl tally st rs') = total (foldl tally st rs) \<and>
         passed (foldl tally st rs') = passed (foldl tally st rs) \<and>
         failed (foldl tally st rs') = failed (foldl tally st rs) \<and>
         mset (failed_files (foldl tally st rs')) = mset (failed_files (foldl tally st rs)) \<and>
         failed_files (foldl tally st rs') =
           failed_files st @ map file_path (filter (\<lambda>r. \<not> success r) rs')"
proof -
  have len: "\<And>P. length (filter P rs') = length (filter P rs)"
  proof -
    fix P :: "task_result \<Rightarrow> bool"
    have "mset (filter P rs') = mset (filter P rs)" using assms by simp
    then show "length (filter P rs') = length (filter P rs)" by (rule mset_eq_length)
  qed
  have files: "mset (map file_path (filter (\<lambda>r. \<not> success r) rs')) = mset (map file_path (filter (\<lambda>r. \<not> success r) rs))"
    using assms by simp
  show ?thesis
    using files by (simp add: foldl_tally_total foldl_tally_passed foldl_tally_failed foldl_tally_failed_files len)
qed

theorem tally_order_independent_witness:
  "mset [\<lparr>file_path = ''b.ts'', expected_success = True, actual_success = False, success = False\<rparr>,
         \<lparr>file_path = ''a.ts'', expected_success = True, actual_success = True, success = True\<rparr>]
   = mset [\<lparr>file_path = ''a.ts'', expected_success = True, actual_success = True, success = True\<rparr>,
           \<lparr>file_path = ''b.ts'', expected_success = True, actual_success = False, success = False\<rparr>]
   \<and> passed (foldl tally \<lparr>total = 2, passed = 0, failed = 0, failed_files = []\<rparr>
        [\<lparr>file_path = ''b.ts'', expected_success = True, actual_success = False, success = False\<rparr>,
         \<lparr>file_path = ''a.ts'', expected_success = True, actual_success = True, success = True\<rparr>])
     = passed (foldl tally \<lparr>total = 2, passed = 0, failed = 0, failed_files = []\<rparr>
        [\<lparr>file_path = ''a.ts'', expected_success = True, actual_success = True, success = True\<rparr>,
         \<lparr>file_path = ''b.ts'', expected_success = True, actual_success = False, success = False\<rparr>])"
proof -
  have h: "mset [\<lparr>file_path = ''b.ts'', expected_success = True, actual_success = False, success = False\<rparr>,
         \<lparr>file_path = ''a.ts'', expected_success = True, actual_success = True, success = True\<rparr>]
   = mset [\<lparr>file_path = ''a.ts'', expected_success = True, actual_success = True, success = True\<rparr>,
           \<lparr>file_path = ''b.ts'', expected_success = True, actual_success = False, success = False\<rparr>]"
    by simp
  from tally_order_independent [OF h, of "\<lparr>total = 2, passed = 0, failed = 0, failed_files = []\<rparr>"] h
  show ?thesis by blast
qed

text \<open>
  The claim as written fails on \<open>failed_files\<close>: two failed results folded in the two
  orders give two different lists.
\<close>

theorem tally_order_counterexample:
  "mset [\<lparr>file_path = ''b.ts'', expected_success = True, actual_success = False, success = False\<rparr>,
         \<lparr>file_path = ''a.ts'', expected_success = True, actual_success = False, success = False\<rparr>]
   = mset [\<lparr>file_path = ''a.ts'', expected_success = True, actual_success = False, success = False\<rparr>,
           \<lparr>file_path = ''b.ts'', expected_success = True, actual_success = False, success = False\<rparr>]
   \<and> foldl tally \<lparr>total = 2, passed = 0, failed = 0, failed_files = []\<rparr>
        [\<lparr>file_path = ''b.ts'', expected_success = True, actual_success = False, success = False\<rparr>,
         \<lparr>file_path = ''a.ts'', expected_success = True, actual_success = False, success = False\<rparr>]
     \<noteq> foldl tally \<lparr>total = 2, passed = 0, failed = 0, failed_files = []\<rparr>
        [\<lparr>file_path = ''a.ts'', expected_success = True, actual_success = False, success = False\<rparr>,
         \<lparr>file_path = ''b.ts'', expected_success = True, actual_success = False, success = False\<rparr>]"
  by (simp add: tally_def)

text \<open>
  C4. When the pool hands back each task once, the counters \<open>process_directory\<close>
  returns for a directory with files satisfy \<open>total = passed + failed\<close> and
  \<open>failed = len(failed_files)\<close>; \<open>total\<close> is the number of results.
\<close>

theorem process_directory_stats_invariant:
  assumes perm: "\<forall>ts. mset (sched ts) = mset ts"
      and pd: "process_directory fsys run sched d e exts = (Inr (results, StatsDict s), out)"
  shows "results \<noteq> [] \<and> total s = int (length results) \<and>
         total s = passed s + failed s \<and> failed s = int (length (failed_files s))"
proof -
  from process_directory_Inr [OF pd] obtain files out0 where
    ne: "files \<noteq> []" and
    m: "map (test_file run) (sched (map (\<lambda>fp. (fp, e)) files)) = map Inr results" and
    s: "s = foldl tally \<lparr>total = int (length files), passed = 0, failed = 0, failed_files = []\<rparr> results"
    by blast
  have "length results = length (sched (map (\<lambda>fp. (fp, e)) files))"
    using m by (metis length_map)
  also have "\<dots> = length (map (\<lambda>fp. (fp, e)) files)"
    using perm by (metis mset_eq_length)
  finally have len: "length results = length files" by simp
  have split: "length (filter success results) + length (filter (\<lambda>r. \<not> success r) results) = length results"
    by (rule sum_length_filter_compl)
  have nonempty: "results \<noteq> []"
    using ne len by auto
  have "int (length (filter success results)) + int (length (filter (\<lambda>r. \<not> success r) results))
          = int (length files)"
    using split len by linarith
  then show ?thesis
    using nonempty len
    by (simp add: s foldl_tally_total foldl_tally_passed foldl_tally_failed foldl_tally_failed_files)
qed

theorem process_directory_stats_invariant_witness:
  "(\<forall>ts::(string \<times> bool) list. mset (rev ts) = mset ts) \<and>
   (\<exists>results s out.
      process_directory demo_fsys demo_run rev ''a'' True None = (Inr (results, StatsDict s), out) \<and>
      results \<noteq> [] \<and> total s = int (length results) \<and>
      total s = passed s + failed s \<and> failed s = int (length (failed_files s)))"
proof -
  have perm: "\<forall>ts::(string \<times> bool) list. mset (rev ts) = mset ts" by simp
  from process_directory_stats_invariant [OF perm process_directory_demo] perm process_directory_demo
  show ?thesis by blast
qed

subsection \<open>The Report Writer\<close>

text \<open>
  C6. Given the counters of two directories with files, \<open>save_results\<close> writes a
  report file and returns its name exactly when some result of either collection has
  \<open>success = False\<close>; when there is none it writes nothing, prints nothing and
  returns None.
\<close>

theorem save_results_writes_iff_mismatch:
  assumes "save_results now rp rf (StatsDict sp) (StatsDict sf) = (ret, out, written)"
  shows "((\<exists>r\<in>set (rp @ rf). \<not> success r) \<longleftrightarrow>
            (\<exists>rep. ret = Inr (Some (''tree-sitter-test-report-'' @ now @ ''.json'')) \<and>
                   written = [(''tree-sitter-test-report-'' @ now @ ''.json'', rep)]))
         \<and> ((\<forall>r\<in>set (rp @ rf). success r) \<longrightarrow> ret = Inr None \<and> out = [] \<and> written = [])"
proof (cases "\<exists>r\<in>set (rp @ rf). \<not> success r")
  case True
  from save_results_some [OF True, of now sp sf] assms True show ?thesis by auto
next
  case False
  then have all: "\<forall>r\<in>set (rp @ rf). success r" by blast
  from save_results_none [OF all, of now "StatsDict sp" "StatsDict sf"] assms
  have "ret = Inr None \<and> out = [] \<and> written = []" by simp
  with False show ?thesis by auto
qed

theorem save_results_writes_iff_mismatch_witness:
  "(\<exists>r\<in>set (demo_rp @ demo_rf). \<not> success r) \<and>
   (\<exists>rep. fst (save_results demo_now demo_rp demo_rf (StatsDict demo_sp) (StatsDict demo_sf))
            = Inr (Some (''tree-sitter-test-report-'' @ demo_now @ ''.json'')) \<and>
          snd (snd (save_results demo_now demo_rp demo_rf (StatsDict demo_sp) (StatsDict demo_sf)))
            = [(''tree-sitter-test-report-'' @ demo_now @ ''.json'', rep)]) \<and>
   success (hd (rev demo_rp)) \<and>
   save_results demo_now [hd (rev demo_rp)] [] (StatsDict demo_sp) (StatsDict demo_sf) = (Inr None, [], [])"
proof -
  have mm: "\<exists>r\<in>set (demo_rp @ demo_rf). \<not> success r"
    by (simp add: demo_rp_def)
  have ok: "success (hd (rev demo_rp))"
    by (simp add: demo_rp_def)
  then have all: "\<forall>r\<in>set ([hd (rev demo_rp)] @ []). success r"
    by simp
  note first = save_results_writes_iff_mismatch
    [of demo_now demo_rp demo_rf demo_sp demo_sf
        "fst (save_results demo_now demo_rp demo_rf (StatsDict demo_sp) (StatsDict demo_sf))"
        "fst (snd (save_results demo_now demo_rp demo_rf (StatsDict demo_sp) (StatsDict demo_sf)))"
        "snd (snd (save_results demo_now demo_rp demo_rf (StatsDict demo_sp) (StatsDict demo_sf)))"]
  note second = save_results_writes_iff_mismatch
    [of demo_now "[hd (rev demo_rp)]" "[]" demo_sp demo_sf
        "fst (save_results demo_now [hd (rev demo_rp)] [] (StatsDict demo_sp) (StatsDict demo_sf))"
        "fst (snd (save_results demo_now [hd (rev demo_rp)] [] (StatsDict demo_sp) (StatsDict demo_sf)))"
        "snd (snd (save_results demo_now [hd (rev demo_rp)] [] (StatsDict demo_sp) (StatsDict demo_sf)))"]
  from first mm have A:
    "\<exists>rep. fst (save_results demo_now demo_rp demo_rf (StatsDict demo_sp) (StatsDict demo_sf))
            = Inr (Some (''tree-sitter-test-report-'' @ demo_now @ ''.json'')) \<and>
          snd (snd (save_results demo_now demo_rp demo_rf (StatsDict demo_sp) (StatsDict demo_sf)))
            = [(''tree-sitter-test-report-'' @ demo_now @ ''.json'', rep)]"
    by simp
  from second all have B:
    "save_results demo_now [hd (rev demo_rp)] [] (StatsDict demo_sp) (StatsDict demo_sf) = (Inr None, [], [])"
    by (simp add: prod_eq_iff)
  from mm A ok B show ?thesis by blast
qed

text \<open>
  C7. When a report is written, the lines printed for each category are the first five
  of its entries, numbered from 1, and a category of more than five entries is followed
  by one line giving the number of entries beyond the fifth; a category of five or
  fewer has no such line.
\<close>

theorem save_results_preview:
  assumes sr: "save_results now rp rf (StatsDict sp) (StatsDict sf) = (ret, out, written)"
      and mm: "\<exists>r\<in>set (rp @ rf). \<not> success r"
  shows "[(i, f). P_pass_entry i f \<leftarrow> out]
           = enumerate 1 (take 5 (map file_path (filter (\<lambda>r. \<not> success r) rp))) \<and>
         [(i, f). P_fail_entry i f \<leftarrow> out]
           = enumerate 1 (take 5 (map file_path (filter (\<lambda>r. \<not> success r) rf))) \<and>
         [n. P_pass_more n \<leftarrow> out]
           = (if length (filter (\<lambda>r. \<not> success r) rp) > 5
              then [length (filter (\<lambda>r. \<not> success r) rp) - 5] else []) \<and>
         [n. P_fail_more n \<leftarrow> out]
           = (if length (filter (\<lambda>r. \<not> success r) rf) > 5
              then [length (filter (\<lambda>r. \<not> success r) rf) - 5] else [])"
proof -
  have out: "out = fst (snd (save_results now rp rf (StatsDict sp) (StatsDict sf)))"
    using sr by simp
  show ?thesis
    unfolding out save_results_console [OF mm] Let_def
    by (simp add: pass_block_lines fail_block_lines enumerate_shift take_map comp_def
        del: concat_eq_Nil_conv)
qed

theorem save_results_preview_witness:
  "(\<exists>r\<in>set (demo_many @ demo_rf). \<not> success r) \<and>
   [(i, f). P_pass_entry i f \<leftarrow>
      fst (snd (save_results demo_now demo_many demo_rf (StatsDict demo_sp) (StatsDict demo_sf)))]
     = [(1, ''f1''), (2, ''f2''), (3, ''f3''), (4, ''f4''), (5, ''f5'')] \<and>
   [n. P_pass_more n \<leftarrow>
      fst (snd (save_results demo_now demo_many demo_rf (StatsDict demo_sp) (StatsDict demo_sf)))]
     = [2] \<and>
   [(i, f). P_fail_entry i f \<leftarrow>
      fst (snd (save_results demo_now demo_many demo_rf (StatsDict demo_sp) (StatsDict demo_sf)))]
     = [(1, ''a/x.ts'')] \<and>
   [n. P_fail_more n \<leftarrow>
      fst (snd (save_results demo_now demo_many demo_rf (StatsDict demo_sp) (StatsDict demo_sf)))]
     = []"
proof -
  have mm: "\<exists>r\<in>set (demo_many @ demo_rf). \<not> success r"
    by (simp add: demo_many_def)
  have h: "save_results demo_now demo_many demo_rf (StatsDict demo_sp) (StatsDict demo_sf) =
             (fst (save_results demo_now demo_many demo_rf (StatsDict demo_sp) (StatsDict demo_sf)),
              fst (snd (save_results demo_now demo_many demo_rf (StatsDict demo_sp) (StatsDict demo_sf))),
              snd (snd (save_results demo_now demo_many demo_rf (StatsDict demo_sp) (StatsDict demo_sf))))"
    by simp
  have p: "map file_path (filter (\<lambda>r. \<not> success r) demo_many)
             = [''f1'', ''f2'', ''f3'', ''f4'', ''f5'', ''f6'', ''f7'']"
    by (simp add: demo_many_def)
  have lp: "length (filter (\<lambda>r. \<not> success r) demo_many) = 7"
    by (simp add: demo_many_def)
  have f: "filter (\<lambda>r. \<not> success r) demo_rf
             = [\<lparr>file_path = ''a/x.ts'', expected_success = False, actual_success = True, success = False\<rparr>]"
    by (simp add: demo_rf_def)
  from save_results_preview [OF h mm] mm show ?thesis
    by (simp add: p lp f enumerate_simps)
qed

text \<open>
  C8. For two result collections and the counters \<open>process_directory\<close> derived from
  them, a report that is written holds one record per result with \<open>success = False\<close>,
  in order, so the length of \<open>failed_tests\<close> is the sum of the two \<open>failed\<close>
  counters.
\<close>

theorem report_failed_tests_count:
  assumes p1: "process_directory fsys run sched d1 e1 exts = (Inr (rp, dp), o1)"
      and p2: "process_directory fsys' run' sched' d2 e2 exts' = (Inr (rf, df), o2)"
      and sr: "save_results now rp rf dp df = (Inr (Some name), out, written)"
  shows "\<exists>sp sf rep. dp = StatsDict sp \<and> df = StatsDict sf \<and> written = [(name, rep)] \<and>
           int (length (failed_tests rep)) = failed sp + failed sf \<and>
           map file_f (failed_tests rep) = map file_path (filter (\<lambda>r. \<not> success r) (rp @ rf))"
proof -
  from save_results_records [OF sr] obtain sp sf rep where
    dp: "dp = StatsDict sp" and df: "df = StatsDict sf" and w: "written = [(name, rep)]" and
    ft: "failed_tests rep =
           map (\<lambda>r. \<lparr>file_f = file_path r, expected = ''pass'', actual = ''fail''\<rparr>)
               (filter (\<lambda>r. \<not> success r) rp)
           @ map (\<lambda>r. \<lparr>file_f = file_path r, expected = ''fail'', actual = ''pass''\<rparr>)
               (filter (\<lambda>r. \<not> success r) rf)"
    by auto
  from process_directory_Inr [OF p1 [unfolded dp]]
  have f1: "failed sp = int (length (filter (\<lambda>r. \<not> success r) rp))"
    by (auto simp: foldl_tally_failed)
  from process_directory_Inr [OF p2 [unfolded df]]
  have f2: "failed sf = int (length (filter (\<lambda>r. \<not> success r) rf))"
    by (auto simp: foldl_tally_failed)
  have "int (length (failed_tests rep)) = failed sp + failed sf"
    by (simp add: ft f1 f2)
  moreover have "map file_f (failed_tests rep) = map file_path (filter (\<lambda>r. \<not> success r) (rp @ rf))"
    by (simp add: ft comp_def)
  ultimately show ?thesis using dp df w by blast
qed

theorem report_failed_tests_count_witness:
  "\<exists>rep. snd (snd (save_results demo_now demo_rp demo_rf (StatsDict demo_sp) (StatsDict demo_sf)))
            = [(''tree-sitter-test-report-20260101-120000.json'', rep)] \<and>
         int (length (failed_tests rep)) = failed demo_sp + failed demo_sf \<and>
         map file_f (failed_tests rep) = [''a/sub/z.tsx'', ''a/y.js'', ''a/x.ts'']"
proof -
  have h: "save_results demo_now demo_rp demo_rf (StatsDict demo_sp) (StatsDict demo_sf) =
             (Inr (Some ''tree-sitter-test-report-20260101-120000.json''),
              fst (snd (save_results demo_now demo_rp demo_rf (StatsDict demo_sp) (StatsDict demo_sf))),
              snd (snd (save_results demo_now demo_rp demo_rf (StatsDict demo_sp) (StatsDict demo_sf))))"
    by (simp add: prod_eq_iff save_results_demo_ret)
  have fs: "map file_path (filter (\<lambda>r. \<not> success r) (demo_rp @ demo_rf))
              = [''a/sub/z.tsx'', ''a/y.js'', ''a/x.ts'']"
    by (simp add: demo_rp_def demo_rf_def)
  from report_failed_tests_count [OF process_directory_demo process_directory_demo_fail h] fs
  show ?thesis by auto
qed

text \<open>
  C9. In a report that is written, \<open>failed_tests\<close> is the records of the should-parse
  collection followed by the records of the should-not-parse collection; the first all
  have expected \<open>pass\<close> and actual \<open>fail\<close>, the second expected \<open>fail\<close> and
  actual \<open>pass\<close>.
\<close>

theorem report_records_shape:
  assumes "save_results now rp rf dp df = (Inr (Some name), out, written)"
  shows "\<exists>rep xs ys. written = [(name, rep)] \<and> failed_tests rep = xs @ ys \<and>
           map file_f xs = map file_path (filter (\<lambda>r. \<not> success r) rp) \<and>
           map file_f ys = map file_path (filter (\<lambda>r. \<not> success r) rf) \<and>
           (\<forall>t\<in>set xs. expected t = ''pass'' \<and> actual t = ''fail'') \<and>
           (\<forall>t\<in>set ys. expected t = ''fail'' \<and> actual t = ''pass'')"
proof -
  let ?xs = "map (\<lambda>r. \<lparr>file_f = file_path r, expected = ''pass'', actual = ''fail''\<rparr>)
                 (filter (\<lambda>r. \<not> success r) rp)"
  let ?ys = "map (\<lambda>r. \<lparr>file_f = file_path r, expected = ''fail'', actual = ''pass''\<rparr>)
                 (filter (\<lambda>r. \<not> success r) rf)"
  from save_results_records [OF assms] obtain rep where
    w: "written = [(name, rep)]" and ft: "failed_tests rep = ?xs @ ?ys"
    by auto
  have "map file_f ?xs = map file_path (filter (\<lambda>r. \<not> success r) rp)"
       "map file_f ?ys = map file_path (filter (\<lambda>r. \<not> success r) rf)"
       "\<forall>t\<in>set ?xs. expected t = ''pass'' \<and> actual t = ''fail''"
       "\<forall>t\<in>set ?ys. expected t = ''fail'' \<and> actual t = ''pass''"
    by (auto simp: comp_def)
  with w ft show ?thesis by blast
qed

theorem report_records_shape_witness:
  "\<exists>rep xs ys.
     snd (snd (save_results demo_now demo_rp demo_rf (StatsDict demo_sp) (StatsDict demo_sf)))
       = [(''tree-sitter-test-report-20260101-120000.json'', rep)] \<and>
     failed_tests rep = xs @ ys \<and>
     map file_f xs = [''a/sub/z.tsx'', ''a/y.js''] \<and> map file_f ys = [''a/x.ts''] \<and>
     (\<forall>t\<in>set xs. expected t = ''pass'' \<and> actual t = ''fail'') \<and>
     (\<forall>t\<in>set ys. expected t = ''fail'' \<and> actual t = ''pass'')"
proof -
  have h: "save_results demo_now demo_rp demo_rf (StatsDict demo_sp) (StatsDict demo_sf) =
             (Inr (Some ''tree-sitter-test-report-20260101-120000.json''),
              fst (snd (save_results demo_now demo_rp demo_rf (StatsDict demo_sp) (StatsDict demo_sf))),
              snd (snd (save_results demo_now demo_rp demo_rf (StatsDict demo_sp) (StatsDict demo_sf))))"
    by (simp add: prod_eq_iff save_results_demo_ret)
  have fp: "map file_path (filter (\<lambda>r. \<not> success r) demo_rp) = [''a/sub/z.tsx'', ''a/y.js'']"
    by (simp add: demo_rp_def)
  have ff: "map file_path (filter (\<lambda>r. \<not> success r) demo_rf) = [''a/x.ts'']"
    by (simp add: demo_rf_def)
  from report_records_shape [OF h] show ?thesis
    by (simp only: fp ff)
qed

subsection \<open>The Corpus Scanner\<close>

lemma path_join_valid:
  "valid_name n \<Longrightarrow> path_join d n = d @ (if d = [] \<or> last d = CHR ''/'' then [] else ''/'') @ n"
  by (cases n) (auto simp: path_join_def valid_name_def)

lemma path_join_valid_last:
  assumes "valid_name n"
  shows "path_join d n \<noteq> [] \<and> last (path_join d n) \<noteq> CHR ''/''"
proof -
  have ne: "n \<noteq> []" using assms by (simp add: valid_name_def)
  then have "last n \<in> set n" by simp
  then have "last n \<noteq> CHR ''/''" using assms unfolding valid_name_def by metis
  then show ?thesis using ne by (simp add: path_join_valid [OF assms])
qed

lemma foldl_path_join_tail:
  "x \<noteq> [] \<Longrightarrow> last x \<noteq> CHR ''/'' \<Longrightarrow> \<forall>n\<in>set ns. valid_name n \<Longrightarrow>
     foldl path_join x ns = x @ concat (map ((#) CHR ''/'') ns)"
proof (induction ns arbitrary: x)
  case Nil
  then show ?case by simp
next
  case (Cons n ns)
  then have v: "valid_name n" by simp
  have "foldl path_join (path_join x n) ns = path_join x n @ concat (map ((#) CHR ''/'') ns)"
    using Cons.IH [of "path_join x n"] path_join_valid_last [OF v, of x] Cons.prems by simp
  then show ?case using Cons.prems v by (simp add: path_join_valid)
qed

lemma foldl_path_join_form:
  assumes "valid_name n" "\<forall>m\<in>set ns. valid_name m"
  shows "foldl path_join d (n # ns) =
           d @ (if d = [] \<or> last d = CHR ''/'' then [] else ''/'') @ n @ concat (map ((#) CHR ''/'') ns)"
  using foldl_path_join_tail [of "path_join d n" ns] path_join_valid_last [OF assms(1), of d] assms
  by (simp add: path_join_valid)

lemma slash_split:
  assumes "CHR ''/'' \<notin> set a" "CHR ''/'' \<notin> set b"
      and "t = [] \<or> hd t = CHR ''/''" "t' = [] \<or> hd t' = CHR ''/''"
      and "a @ t = b @ t'"
  shows "a = b \<and> t = t'"
proof -
  have tw: "\<And>a t. CHR ''/'' \<notin> set a \<Longrightarrow> t = [] \<or> hd t = CHR ''/'' \<Longrightarrow>
              takeWhile (\<lambda>c. c \<noteq> CHR ''/'') (a @ t) = a"
  proof -
    fix a t :: string
    assume a: "CHR ''/'' \<notin> set a" and t: "t = [] \<or> hd t = CHR ''/''"
    have "takeWhile (\<lambda>c. c \<noteq> CHR ''/'') (a @ t) = a @ takeWhile (\<lambda>c. c \<noteq> CHR ''/'') t"
      using a by (intro takeWhile_append2) auto
    moreover have "takeWhile (\<lambda>c. c \<noteq> CHR ''/'') t = []"
      using t by (cases t) auto
    ultimately show "takeWhile (\<lambda>c. c \<noteq> CHR ''/'') (a @ t) = a" by simp
  qed
  have "a = takeWhile (\<lambda>c. c \<noteq> CHR ''/'') (a @ t)" using tw assms(1,3) by simp
  also have "\<dots> = takeWhile (\<lambda>c. c \<noteq> CHR ''/'') (b @ t')" using assms(5) by simp
  also have "\<dots> = b" using tw assms(2,4) by simp
  finally have "a = b" .
  with assms(5) show ?thesis by simp
qed

lemma slash_concat_inj:
  "\<forall>n\<in>set ns. valid_name n \<Longrightarrow> \<forall>n\<in>set ms. valid_name n \<Longrightarrow>
     concat (map ((#) CHR ''/'') ns) = concat (map ((#) CHR ''/'') ms) \<Longrightarrow> ns = ms"
proof (induction ns arbitrary: ms)
  case Nil
  then show ?case by (cases ms) auto
next
  case (Cons n ns)
  show ?case
  proof (cases ms)
    case Nil
    with Cons.prems show ?thesis by simp
  next
    case (Cons m ms')
    let ?t = "concat (map ((#) CHR ''/'') ns)" and ?t' = "concat (map ((#) CHR ''/'') ms')"
    from Cons.prems Cons have eq: "n @ ?t = m @ ?t'" by simp
    have t: "?t = [] \<or> hd ?t = CHR ''/''" by (cases ns) auto
    have t': "?t' = [] \<or> hd ?t' = CHR ''/''" by (cases ms') auto
    have "CHR ''/'' \<notin> set n" "CHR ''/'' \<notin> set m"
      using Cons.prems Cons by (auto simp: valid_name_def)
    from slash_split [OF this t t' eq] have nm: "n = m" and tt: "?t = ?t'" by auto
    have "ns = ms'" using Cons.IH [OF _ _ tt] Cons.prems Cons by auto
    with nm Cons show ?thesis by simp
  qed
qed

lemma foldl_path_join_inj:
  assumes "ns \<noteq> []" "\<forall>n\<in>set ns. valid_name n" "ms \<noteq> []" "\<forall>n\<in>set ms. valid_name n"
      and eq: "foldl path_join d ns = foldl path_join d ms"
  shows "ns = ms"
proof -
  from assms obtain n ns' where ns: "ns = n # ns'" by (cases ns) auto
  from assms obtain m ms' where ms: "ms = m # ms'" by (cases ms) auto
  let ?t = "concat (map ((#) CHR ''/'') ns')" and ?t' = "concat (map ((#) CHR ''/'') ms')"
  have v: "valid_name n" "\<forall>x\<in>set ns'. valid_name x" "valid_name m" "\<forall>x\<in>set ms'. valid_name x"
    using assms ns ms by auto
  from eq have "n @ ?t = m @ ?t'"
    unfolding ns ms foldl_path_join_form [OF v(1,2)] foldl_path_join_form [OF v(3,4)] by simp
  moreover have "?t = [] \<or> hd ?t = CHR ''/''" by (cases ns') auto
  moreover have "?t' = [] \<or> hd ?t' = CHR ''/''" by (cases ms') auto
  moreover have "CHR ''/'' \<notin> set n" "CHR ''/'' \<notin> set m" using v by (auto simp: valid_name_def)
  ultimately have "n = m" "?t = ?t'" using slash_split by blast+
  with slash_concat_inj [OF v(2) v(4)] ns ms show ?thesis by simp
qed


lemma file_at_Nil [simp]: "\<not> file_at es []"
  by (induction es "[]::string list" rule: file_at.induct) auto

lemma reached_at_Nil [simp]: "\<not> reached_at es []"
  by (induction es "[]::string list" rule: reached_at.induct) auto

lemma file_at_nonempty: "file_at es ns \<Longrightarrow> ns \<noteq> []"
  by auto

lemma reached_at_nonempty: "reached_at es ns \<Longrightarrow> ns \<noteq> []"
  by auto

lemma reached_at_file_at: "reached_at es ns \<Longrightarrow> file_at es ns"
proof (induction es arbitrary: ns rule: wf_entries.induct)
  case 1
  then show ?case by simp
next
  case (2 n rest)
  then show ?case by auto
next
  case (3 n sub rest)
  then show ?case by (cases ns) auto
next
  case (4 n sub rest)
  then show ?case by (cases ns) auto
next
  case (5 n sub rest)
  then show ?case by (cases ns) auto
qed

lemma reached_at_iff:
  "reached_at es ns \<longleftrightarrow>
     (\<exists>n. ns = [n] \<and> (n, File) \<in> set es) \<or>
     (\<exists>n sub ms. ns = n # ms \<and> (n, Dir sub) \<in> set es \<and> reached_at sub ms)"
proof (induction es)
  case Nil
  then show ?case by simp
next
  case (Cons e es)
  obtain n nd where e: "e = (n, nd)" by (cases e)
  show ?case
  proof (cases nd)
    case File
    with e Cons show ?thesis by auto
  next
    case (Dir sub)
    with e Cons show ?thesis by (cases ns) auto
  next
    case (Link sub)
    with e Cons show ?thesis by auto
  next
    case (Locked sub)
    with e Cons show ?thesis by auto
  qed
qed

lemma filenames_of_simps:
  "filenames_of [] = []"
  "filenames_of ((n, File) # rest) = n # filenames_of rest"
  "filenames_of ((n, Dir sub) # rest) = filenames_of rest"
  "filenames_of ((n, Link sub) # rest) = filenames_of rest"
  "filenames_of ((n, Locked sub) # rest) = filenames_of rest"
  by (simp_all add: filenames_of_def)

lemma set_filenames_of: "set (filenames_of es) = {n. (n, File) \<in> set es}"
  by (induction es rule: wf_entries.induct) (auto simp: filenames_of_simps)

lemma set_hits_dirs_aux:
  "(\<forall>ns. ns \<in> set (hits exts es) \<longleftrightarrow>
          reached_at es ns \<and> list_ex (\<lambda>ext. endswith (last ns) ext) exts)"
  "(\<forall>ns. ns \<in> set (hits_dirs exts es) \<longleftrightarrow>
          (\<exists>n sub ms. ns = n # ms \<and> (n, Dir sub) \<in> set es \<and> reached_at sub ms \<and>
             list_ex (\<lambda>ext. endswith (last ms) ext) exts))"
proof (induction exts es and exts es rule: hits_hits_dirs.induct)
  case (1 exts es)
  show ?case
  proof (intro allI)
    fix ns
    let ?M = "\<lambda>n. list_ex (\<lambda>ext. endswith n ext) exts"
    have a: "ns \<in> set [[n]. n \<leftarrow> filenames_of es, ?M n] \<longleftrightarrow>
               (\<exists>n. ns = [n] \<and> (n, File) \<in> set es) \<and> ?M (last ns)"
      by (auto simp: set_filenames_of)
    have b: "ns \<in> set (hits_dirs exts es) \<longleftrightarrow>
               (\<exists>n sub ms. ns = n # ms \<and> (n, Dir sub) \<in> set es \<and> reached_at sub ms) \<and> ?M (last ns)"
    proof -
      have ih: "ns \<in> set (hits_dirs exts es) \<longleftrightarrow>
                  (\<exists>n sub ms. ns = n # ms \<and> (n, Dir sub) \<in> set es \<and> reached_at sub ms \<and> ?M (last ms))"
        using 1 by blast
      have l: "\<And>n sub ms. reached_at sub ms \<Longrightarrow> last (n # ms) = last ms"
      proof -
        fix n :: string and sub ms assume "reached_at sub ms"
        then have "ms \<noteq> []" by (rule reached_at_nonempty)
        then show "last (n # ms) = last ms" by simp
      qed
      show ?thesis
      proof
        assume "ns \<in> set (hits_dirs exts es)"
        then obtain n sub ms where
          "ns = n # ms" "(n, Dir sub) \<in> set es" "reached_at sub ms" "?M (last ms)"
          using ih by blast
        then show "(\<exists>n sub ms. ns = n # ms \<and> (n, Dir sub) \<in> set es \<and> reached_at sub ms) \<and> ?M (last ns)"
          using l [of sub ms n] by auto
      next
        assume "(\<exists>n sub ms. ns = n # ms \<and> (n, Dir sub) \<in> set es \<and> reached_at sub ms) \<and> ?M (last ns)"
        then obtain n sub ms where
          "ns = n # ms" "(n, Dir sub) \<in> set es" "reached_at sub ms" "?M (last ns)"
          by blast
        then have "ns = n # ms \<and> (n, Dir sub) \<in> set es \<and> reached_at sub ms \<and> ?M (last ms)"
          using l [of sub ms n] by simp
        then show "ns \<in> set (hits_dirs exts es)"
          unfolding ih by blast
      qed
    qed
    have "ns \<in> set (hits exts es) \<longleftrightarrow>
            ((\<exists>n. ns = [n] \<and> (n, File) \<in> set es) \<or>
             (\<exists>n sub ms. ns = n # ms \<and> (n, Dir sub) \<in> set es \<and> reached_at sub ms)) \<and> ?M (last ns)"
      unfolding hits.simps set_append Un_iff a b by blast
    then show "ns \<in> set (hits exts es) \<longleftrightarrow> reached_at es ns \<and> ?M (last ns)"
      using reached_at_iff [of es ns] by simp
  qed
next
  case (2 exts)
  then show ?case by simp
next
  case (3 exts n rest)
  then show ?case by auto
next
  case (4 exts n sub rest)
  show ?case
  proof (intro allI)
    fix ns
    let ?M = "\<lambda>n. list_ex (\<lambda>ext. endswith n ext) exts"
    have h: "ns \<in> set (map ((#) n) (hits exts sub)) \<longleftrightarrow>
               (\<exists>ms. ns = n # ms \<and> reached_at sub ms \<and> ?M (last ms))"
    proof -
      have "\<And>ms. ms \<in> set (hits exts sub) \<longleftrightarrow> reached_at sub ms \<and> ?M (last ms)"
        using 4(1) by blast
      then show ?thesis by auto
    qed
    have r: "ns \<in> set (hits_dirs exts rest) \<longleftrightarrow>
               (\<exists>m sub' ms. ns = m # ms \<and> (m, Dir sub') \<in> set rest \<and> reached_at sub' ms \<and> ?M (last ms))"
      using 4(2) by blast
    show "ns \<in> set (hits_dirs exts ((n, Dir sub) # rest)) \<longleftrightarrow>
            (\<exists>m sub' ms. ns = m # ms \<and> (m, Dir sub') \<in> set ((n, Dir sub) # rest) \<and>
               reached_at sub' ms \<and> ?M (last ms))"
      unfolding hits_dirs.simps set_append Un_iff h r by auto
  qed
next
  case (5 exts n sub rest)
  then show ?case by auto
next
  case (6 exts n sub rest)
  then show ?case by auto
qed

lemma set_hits:
  "ns \<in> set (hits exts es) \<longleftrightarrow> reached_at es ns \<and> list_ex (\<lambda>ext. endswith (last ns) ext) exts"
  using set_hits_dirs_aux(1) by blast

lemma set_hits_dirs:
  "ns \<in> set (hits_dirs exts es) \<longleftrightarrow>
     (\<exists>n sub ms. ns = n # ms \<and> (n, Dir sub) \<in> set es \<and> reached_at sub ms \<and>
        list_ex (\<lambda>ext. endswith (last ms) ext) exts)"
  using set_hits_dirs_aux(2) by blast

lemma found_hits:
  "[path_join rt filename. (rt, dirs, filenames) \<leftarrow> walk d es, filename \<leftarrow> filenames,
      list_ex (\<lambda>ext. endswith filename ext) exts]
     = map (foldl path_join d) (hits exts es)"
  "[path_join rt filename. (rt, dirs, filenames) \<leftarrow> walk_dirs d es, filename \<leftarrow> filenames,
      list_ex (\<lambda>ext. endswith filename ext) exts]
     = map (foldl path_join d) (hits_dirs exts es)"
proof (induction d es and d es rule: walk_walk_dirs.induct)
  case (1 d es)
  have "concat (map (\<lambda>filename. if list_ex (\<lambda>ext. endswith filename ext) exts
                                 then [path_join d filename] else []) (filenames_of es))
          = map (foldl path_join d)
              [[n]. n \<leftarrow> filenames_of es, list_ex (\<lambda>ext. endswith n ext) exts]"
    by (simp add: concat_map_if comp_def)
  with 1 show ?case by (simp add: hits.simps)
next
  case (2 d)
  then show ?case by simp
next
  case (3 d n rest)
  then show ?case by simp
next
  case (4 d n sub rest)
  then show ?case by (simp add: comp_def del: walk.simps)
next
  case (5 d n sub rest)
  then show ?case by simp
next
  case (6 d n sub rest)
  then show ?case by simp
qed

lemma wf_entries_filenames: "wf_entries es \<Longrightarrow> distinct (filenames_of es)"
  by (induction es rule: wf_entries.induct) (auto simp: filenames_of_simps set_filenames_of image_iff)

lemma wf_entries_valid:
  "wf_entries es \<Longrightarrow> file_at es ns \<Longrightarrow> \<forall>n\<in>set ns. valid_name n"
proof (induction es arbitrary: ns rule: wf_entries.induct)
  case 1
  then show ?case by simp
next
  case (2 n rest)
  then show ?case by auto
next
  case (3 n sub rest)
  then show ?case by (cases ns) auto
next
  case (4 n sub rest)
  then show ?case by (cases ns) auto
next
  case (5 n sub rest)
  then show ?case by (cases ns) auto
qed

lemma distinct_hits:
  "wf_entries es \<Longrightarrow> distinct (hits exts es)"
  "wf_entries es \<Longrightarrow> distinct (hits_dirs exts es)"
proof (induction exts es and exts es rule: hits_hits_dirs.induct)
  case (1 exts es)
  let ?A = "[[n]. n \<leftarrow> filenames_of es, list_ex (\<lambda>ext. endswith n ext) exts]"
  have A: "?A = map (\<lambda>n. [n]) (filter (\<lambda>n. list_ex (\<lambda>ext. endswith n ext) exts) (filenames_of es))"
    by (rule concat_map_if)
  have "distinct ?A"
    unfolding A using wf_entries_filenames [OF "1.prems"] by (simp add: distinct_map inj_on_def)
  moreover have "distinct (hits_dirs exts es)" using 1 by simp
  moreover have "set ?A \<inter> set (hits_dirs exts es) = {}"
    unfolding A by (auto simp: set_hits_dirs)
  ultimately show ?case by (simp add: hits.simps)
next
  case (2 exts)
  then show ?case by simp
next
  case (3 exts n rest)
  then show ?case by simp
next
  case (4 exts n sub rest)
  have "distinct (map ((#) n) (hits exts sub))"
    using 4 by (simp add: distinct_map)
  moreover have "distinct (hits_dirs exts rest)" using 4 by simp
  moreover have "set (map ((#) n) (hits exts sub)) \<inter> set (hits_dirs exts rest) = {}"
  proof -
    have "\<And>ms. n # ms \<in> set (hits_dirs exts rest) \<Longrightarrow> n \<in> fst ` set rest"
      by (force simp: set_hits_dirs)
    moreover have "n \<notin> fst ` set rest" using "4.prems" by simp
    ultimately show ?thesis by auto
  qed
  ultimately show ?case by simp
next
  case (5 exts n sub rest)
  then show ?case by simp
next
  case (6 exts n sub rest)
  then show ?case by simp
qed

lemma count_list_distinct: "distinct xs \<Longrightarrow> x \<in> set xs \<Longrightarrow> count_list xs x = 1"
  by (induction xs) (auto simp: count_list_0_iff)

lemma find_files_hits:
  assumes "fsys directory = Some (Dir es) \<or> fsys directory = Some (Link es)"
  shows "fst (find_files fsys directory extensions) =
           map (foldl path_join directory)
             (hits (case extensions of None \<Rightarrow> default_extensions | Some e \<Rightarrow> e) es)"
  using assms found_hits(1) [where d = directory and es = es]
  by (auto simp add: find_files_def Let_def simp del: walk.simps)

lemma find_files_demo_links:
  "find_files demo_links_fsys ''t'' None = ([''t/a.ts'', ''t/sub/b.js''], [])"
  by (simp add: find_files_def demo_links_fsys_def demo_links_def dirnames_def filenames_of_def
      path_join_def endswith_def default_extensions_def)

text \<open>
  C10 (as the code has it). For a directory that exists and can be listed, with a tree
  as a file system holds it, and any extension list (the default when none is given):
  every path \<open>find_files\<close> returns is the path of a file whose name ends with one of
  the suffixes and which is reached through directories that can be listed and are
  not symbolic links; the path of every such file occurs in the returned list exactly
  once; and no file below a symbolic link or below a directory that cannot be listed
  is returned.
\<close>

theorem find_files_exact:
  assumes dir: "fsys directory = Some (Dir es) \<or> fsys directory = Some (Link es)"
      and wf: "wf_entries es"
      and exts: "exts = (case extensions of None \<Rightarrow> default_extensions | Some e \<Rightarrow> e)"
  shows "(\<forall>p\<in>set (fst (find_files fsys directory extensions)).
            \<exists>ns. reached_at es ns \<and> file_at es ns \<and>
                 list_ex (\<lambda>ext. endswith (last ns) ext) exts \<and>
                 p = foldl path_join directory ns)
       \<and> (\<forall>ns. reached_at es ns \<and> list_ex (\<lambda>ext. endswith (last ns) ext) exts \<longrightarrow>
             count_list (fst (find_files fsys directory extensions)) (foldl path_join directory ns) = 1)
       \<and> (\<forall>ns. file_at es ns \<and> \<not> reached_at es ns \<longrightarrow>
             count_list (fst (find_files fsys directory extensions)) (foldl path_join directory ns) = 0)"
proof -
  let ?found = "fst (find_files fsys directory extensions)"
  have found: "?found = map (foldl path_join directory) (hits exts es)"
    unfolding exts using dir
    by (rule find_files_hits [where fsys = fsys and directory = directory and es = es])
  have inj_all: "\<And>ns ms. file_at es ns \<Longrightarrow> file_at es ms \<Longrightarrow>
                   foldl path_join directory ns = foldl path_join directory ms \<Longrightarrow> ns = ms"
  proof -
    fix ns ms
    assume f: "file_at es ns" "file_at es ms"
       and eq: "foldl path_join directory ns = foldl path_join directory ms"
    show "ns = ms"
      using foldl_path_join_inj [OF file_at_nonempty [OF f(1)] wf_entries_valid [OF wf f(1)]
          file_at_nonempty [OF f(2)] wf_entries_valid [OF wf f(2)] eq] .
  qed
  have inj: "inj_on (foldl path_join directory) (set (hits exts es))"
  proof (rule inj_onI)
    fix ns ms
    assume ns: "ns \<in> set (hits exts es)" and ms: "ms \<in> set (hits exts es)"
       and eq: "foldl path_join directory ns = foldl path_join directory ms"
    from ns ms have "file_at es ns" "file_at es ms"
      by (simp_all add: set_hits reached_at_file_at)
    then show "ns = ms" using eq by (rule inj_all)
  qed
  have dist: "distinct ?found"
    unfolding found using distinct_hits(1) [OF wf] inj by (simp add: distinct_map)
  have sound: "\<forall>p\<in>set ?found.
            \<exists>ns. reached_at es ns \<and> file_at es ns \<and>
                 list_ex (\<lambda>ext. endswith (last ns) ext) exts \<and>
                 p = foldl path_join directory ns"
    unfolding found by (auto simp: set_hits reached_at_file_at)
  have once: "\<forall>ns. reached_at es ns \<and> list_ex (\<lambda>ext. endswith (last ns) ext) exts \<longrightarrow>
             count_list ?found (foldl path_join directory ns) = 1"
  proof (intro allI impI)
    fix ns assume "reached_at es ns \<and> list_ex (\<lambda>ext. endswith (last ns) ext) exts"
    then have "ns \<in> set (hits exts es)" by (simp add: set_hits)
    then have "foldl path_join directory ns \<in> set ?found"
      unfolding found by simp
    with dist show "count_list ?found (foldl path_join directory ns) = 1"
      by (rule count_list_distinct)
  qed
  have never: "\<forall>ns. file_at es ns \<and> \<not> reached_at es ns \<longrightarrow>
             count_list ?found (foldl path_join directory ns) = 0"
  proof (intro allI impI)
    fix ns assume a: "file_at es ns \<and> \<not> reached_at es ns"
    have "foldl path_join directory ns \<notin> set ?found"
    proof
      assume "foldl path_join directory ns \<in> set ?found"
      then obtain ms where ms: "ms \<in> set (hits exts es)"
        and eq: "foldl path_join directory ns = foldl path_join directory ms"
        unfolding found by auto
      from ms have r: "reached_at es ms" by (simp add: set_hits)
      then have "file_at es ms" by (rule reached_at_file_at)
      with a eq have "ns = ms" using inj_all by blast
      with r a show False by simp
    qed
    then show "count_list ?found (foldl path_join directory ns) = 0"
      by (simp add: count_list_0_iff)
  qed
  from sound once never show ?thesis by blast
qed

theorem find_files_exact_witness:
  "(demo_links_fsys ''t'' = Some (Dir demo_links) \<or> demo_links_fsys ''t'' = Some (Link demo_links)) \<and>
   wf_entries demo_links \<and>
   reached_at demo_links [''sub'', ''b.js''] \<and>
   list_ex (\<lambda>ext. endswith (last [''sub'', ''b.js'']) ext) default_extensions \<and>
   count_list (fst (find_files demo_links_fsys ''t'' None)) ''t/sub/b.js'' = 1 \<and>
   ''t/a.ts'' \<in> set (fst (find_files demo_links_fsys ''t'' None)) \<and>
   (\<exists>ns. reached_at demo_links ns \<and> file_at demo_links ns \<and>
         list_ex (\<lambda>ext. endswith (last ns) ext) default_extensions \<and>
         ''t/a.ts'' = foldl path_join ''t'' ns) \<and>
   file_at demo_links [''lnk'', ''r.ts''] \<and> \<not> reached_at demo_links [''lnk'', ''r.ts''] \<and>
   count_list (fst (find_files demo_links_fsys ''t'' None)) ''t/lnk/r.ts'' = 0"
proof -
  have dir: "demo_links_fsys ''t'' = Some (Dir demo_links) \<or> demo_links_fsys ''t'' = Some (Link demo_links)"
    by (simp add: demo_links_fsys_def)
  have wf: "wf_entries demo_links" by (simp add: demo_links_def valid_name_def)
  have ex: "default_extensions = (case None of None \<Rightarrow> default_extensions | Some e \<Rightarrow> e)" by simp
  have at: "reached_at demo_links [''sub'', ''b.js'']" by (simp add: demo_links_def)
  have m: "list_ex (\<lambda>ext. endswith (last [''sub'', ''b.js'']) ext) default_extensions"
    by (simp add: default_extensions_def endswith_def)
  have p: "foldl path_join ''t'' [''sub'', ''b.js''] = ''t/sub/b.js''"
    by (simp add: path_join_def)
  have mem: "''t/a.ts'' \<in> set (fst (find_files demo_links_fsys ''t'' None))"
    by (simp add: find_files_demo_links)
  have behind: "file_at demo_links [''lnk'', ''r.ts'']" "\<not> reached_at demo_links [''lnk'', ''r.ts'']"
    by (simp_all add: demo_links_def)
  have q: "foldl path_join ''t'' [''lnk'', ''r.ts''] = ''t/lnk/r.ts''"
    by (simp add: path_join_def)
  note inst = find_files_exact [where fsys = demo_links_fsys and directory = "''t''" and
      extensions = None, OF dir wf ex]
  from inst at m p have c: "count_list (fst (find_files demo_links_fsys ''t'' None)) ''t/sub/b.js'' = 1"
    by metis
  from inst mem have s: "\<exists>ns. reached_at demo_links ns \<and> file_at demo_links ns \<and>
         list_ex (\<lambda>ext. endswith (last ns) ext) default_extensions \<and>
         ''t/a.ts'' = foldl path_join ''t'' ns"
    by blast
  from inst behind q have z: "count_list (fst (find_files demo_links_fsys ''t'' None)) ''t/lnk/r.ts'' = 0"
    by metis
  from dir wf at m c mem s behind z show ?thesis by blast
qed

text \<open>
  The claim as written fails on a tree with a directory that cannot be listed or a
  symbolic link to a directory: the files behind them are files of the tree with a
  matching name, and \<open>find_files\<close> returns normally without them.
\<close>

theorem find_files_counterexample:
  "demo_links_fsys ''t'' = Some (Dir demo_links) \<and>
   file_at demo_links [''locked'', ''hidden.ts''] \<and>
   endswith (last [''locked'', ''hidden.ts'']) ''.ts'' \<and>
   foldl path_join ''t'' [''locked'', ''hidden.ts''] = ''t/locked/hidden.ts'' \<and>
   count_list (fst (find_files demo_links_fsys ''t'' (Some [''.ts'']))) ''t/locked/hidden.ts'' = 0 \<and>
   file_at demo_links [''lnk'', ''r.ts''] \<and>
   endswith (last [''lnk'', ''r.ts'']) ''.ts'' \<and>
   foldl path_join ''t'' [''lnk'', ''r.ts''] = ''t/lnk/r.ts'' \<and>
   count_list (fst (find_files demo_links_fsys ''t'' (Some [''.ts'']))) ''t/lnk/r.ts'' = 0 \<and>
   fst (find_files demo_links_fsys ''t'' (Some [''.ts''])) = [''t/a.ts'']"
  by (simp add: find_files_def demo_links_fsys_def demo_links_def dirnames_def filenames_of_def
      path_join_def endswith_def)

subsection \<open>A run over two empty directories\<close>

text \<open>
  C1 (the code departs from it). When neither directory exists, each
  \<open>process_directory\<close> returns the empty dict, and \<open>print_stats\<close> raises KeyError
  at its first subscript: the run ends with an exception, before any rate is printed.
\<close>

theorem main_no_files_raises:
  "fst (main (e\<lparr>the_fsys := \<lambda>d. None\<rparr>) should_parse_dir should_not_parse_dir extensions)
     = Inl (KeyError ''total'')"
  by (simp add: main_def process_directory_def find_files_def print_stats_def)

end
